theory Spec2Isabelle
  imports Main
begin

section \<open>Strings\<close>

text \<open>
  A Python \<^verbatim>\<open>str\<close> is a sequence of code points. It is modelled as a \<^typ>\<open>string\<close>
  whose characters are the code points below 256; \<^verbatim>\<open>str.strip\<close>, \<^verbatim>\<open>str.lower\<close>
  and \<^verbatim>\<open>str.replace\<close> are given as Python defines them on that range.
\<close>

definition is_space :: "char \<Rightarrow> bool" where
  \<comment> \<open>\<^verbatim>\<open>str.isspace\<close> on one code point: TAB, LF, VT, FF, CR, FS, GS, RS, US, SPACE,
      NEL and NBSP.\<close>
  "is_space c = ((of_char c :: nat) \<in> {9, 10, 11, 12, 13, 28, 29, 30, 31, 32, 133, 160})"

definition is_upper :: "char \<Rightarrow> bool" where
  \<comment> \<open>The code points below 256 that \<^verbatim>\<open>str.lower\<close> changes: A to Z, and the
      capital letters from 192 to 222 without the multiplication sign 215.\<close>
  "is_upper c = (let n = (of_char c :: nat) in
     (65 \<le> n \<and> n \<le> 90) \<or> (192 \<le> n \<and> n \<le> 222 \<and> n \<noteq> 215))"

definition lower_char :: "char \<Rightarrow> char" where
  "lower_char c = (if is_upper c then char_of ((of_char c :: nat) + 32) else c)"

definition strip :: "string \<Rightarrow> string" where
  \<comment> \<open>\<^verbatim>\<open>s.strip()\<close>: the leading and the trailing run of whitespace are removed.\<close>
  "strip s = rev (dropWhile is_space (rev (dropWhile is_space s)))"

definition lower :: "string \<Rightarrow> string" where
  \<comment> \<open>\<^verbatim>\<open>s.lower()\<close>\<close>
  "lower s = map lower_char s"

definition replace_space :: "string \<Rightarrow> string" where
  \<comment> \<open>\<^verbatim>\<open>s.replace(" ", "_")\<close>: every occurrence of the space character.\<close>
  "replace_space s = map (\<lambda>c. if c = CHR '' '' then CHR ''_'' else c) s"

section \<open>Tables\<close>

text \<open>
  A \<^verbatim>\<open>DataFrame\<close> is a list of column labels, the dtype of each column, and the
  rows, each a list of cells in column order. Labels may repeat, as pandas allows. A cell
  is a text, a number or a missing value (\<^verbatim>\<open>NaN\<close>, \<^verbatim>\<open>None\<close>, \<^verbatim>\<open>pd.NA\<close>). The
  numbers are any type with a zero and an order: what the code does with a number is to
  compare it with zero. The row index of the frame is not modelled: no stage reads it.
\<close>

datatype 'n val = Text string | Num 'n | Missing

datatype dtype = Object | StringDtype | Numeric

record 'n table =
  columns :: "string list"
  dtypes :: "dtype list"
  rows :: "'n val list list"

datatype error =
    KeyError string
  | TypeError
  | AttributeError
  | Duplicate_label string

definition trimmed :: "string \<Rightarrow> bool" where
  \<comment> \<open>No whitespace at either end.\<close>
  "trimmed s = (s = [] \<or> (\<not> is_space (hd s) \<and> \<not> is_space (last s)))"

section \<open>Column Normalizer\<close>

definition normalize_name :: "string \<Rightarrow> string" where
  \<comment> \<open>\<^verbatim>\<open>col.strip().lower().replace(" ", "_")\<close>\<close>
  "normalize_name col = replace_space (lower (strip col))"

definition clean_column_names :: "'n table \<Rightarrow> 'n table" where
  \<comment> \<open>\<^verbatim>\<open>df = df.copy(); df.columns = [...]; return df\<close>\<close>
  "clean_column_names df = df\<lparr>columns := map normalize_name (columns df)\<rparr>"

section \<open>Reading cells\<close>

definition positions :: "string \<Rightarrow> string list \<Rightarrow> nat list" where
  \<comment> \<open>The positions of a label among the column labels, in order.\<close>
  "positions c cs = filter (\<lambda>i. cs ! i = c) [0..<length cs]"

definition at :: "'n val list \<Rightarrow> nat \<Rightarrow> 'n val" where
  \<comment> \<open>The cell of a row at a position; a row that ends before the position reads as
      missing there, which is how the loader pads a short line.\<close>
  "at r i = (if i < length r then r ! i else Missing)"

definition cells :: "string \<Rightarrow> 'n table \<Rightarrow> 'n val list \<Rightarrow> 'n val list" where
  \<comment> \<open>The cells of a row under a label: one for each column that carries it.\<close>
  "cells c df r = map (at r) (positions c (columns df))"

definition isna :: "'n val \<Rightarrow> bool" where
  "isna v = (case v of Missing \<Rightarrow> True | _ \<Rightarrow> False)"

definition getitem :: "string \<Rightarrow> 'n table \<Rightarrow> error + 'n val list" where
  \<comment> \<open>\<^verbatim>\<open>df[c]\<close> as a column. An absent label raises \<^verbatim>\<open>KeyError\<close>. For a label that
      occurs more than once pandas gives a frame, not a column; what a comparison and a mask
      built from it do is outside this model, which stops with \<open>Duplicate_label\<close>.\<close>
  "getitem c df = (case positions c (columns df) of
       [] \<Rightarrow> Inl (KeyError c)
     | [i] \<Rightarrow> Inr (map (\<lambda>r. at r i) (rows df))
     | _ \<Rightarrow> Inl (Duplicate_label c))"

section \<open>Text Trimmer\<close>

definition string_columns :: "'n table \<Rightarrow> string list" where
  \<comment> \<open>\<^verbatim>\<open>df.select_dtypes(include=["object"]).columns.tolist()\<close>: the labels of the
      columns of dtype object. In pandas 1 and 2 a column of dtype string is not among
      them.\<close>
  "string_columns df = map fst (filter (\<lambda>(c, d). d = Object) (zip (columns df) (dtypes df)))"

definition strip_cell :: "('n \<Rightarrow> string) \<Rightarrow> 'n val \<Rightarrow> 'n val" where
  \<comment> \<open>One cell under \<^verbatim>\<open>.astype("string").str.strip()\<close>. The conversion keeps a missing
      value missing and turns any other value into its \<^verbatim>\<open>str()\<close>; how Python prints a
      number is the parameter \<open>str\<close>.\<close>
  "strip_cell str v = (case v of
       Text s \<Rightarrow> Text (strip s)
     | Num n \<Rightarrow> Text (strip (str n))
     | Missing \<Rightarrow> Missing)"

definition strip_column :: "('n \<Rightarrow> string) \<Rightarrow> nat \<Rightarrow> 'n table \<Rightarrow> 'n table" where
  \<comment> \<open>\<^verbatim>\<open>df[col] = df[col].astype("string").str.strip()\<close> for the column at position
      \<open>i\<close>: its cells are replaced and its dtype becomes string.\<close>
  "strip_column str i df = df\<lparr>dtypes := (dtypes df)[i := StringDtype],
     rows := map (\<lambda>r. r[i := strip_cell str (at r i)]) (rows df)\<rparr>"

fun strip_loop :: "('n \<Rightarrow> string) \<Rightarrow> string list \<Rightarrow> 'n table \<Rightarrow> error + 'n table" where
  \<comment> \<open>The \<^verbatim>\<open>for col in string_columns\<close> loop. For a label that occurs more than once
      \<^verbatim>\<open>df[col]\<close> is a frame, which has no \<^verbatim>\<open>.str\<close>: \<^verbatim>\<open>AttributeError\<close>.\<close>
  "strip_loop str [] df = Inr df"
| "strip_loop str (col # cols) df = (case positions col (columns df) of
       [] \<Rightarrow> Inl (KeyError col)
     | [i] \<Rightarrow> strip_loop str cols (strip_column str i df)
     | _ \<Rightarrow> Inl AttributeError)"

definition strip_whitespace_from_strings ::
    "('n \<Rightarrow> string) \<Rightarrow> 'n table \<Rightarrow> error + 'n table" where
  "strip_whitespace_from_strings str df = strip_loop str (string_columns df) df"

definition text_typed :: "'n table \<Rightarrow> nat \<Rightarrow> bool" where
  \<comment> \<open>The column at a position is of dtype object.\<close>
  "text_typed df i = (i < length (columns df) \<and> i < length (dtypes df) \<and> dtypes df ! i = Object)"

definition hit :: "string list \<Rightarrow> string list \<Rightarrow> nat \<Rightarrow> bool" where
  \<comment> \<open>The position carries one of the labels the loop goes through.\<close>
  "hit cols cs i = (i < length cs \<and> cs ! i \<in> set cols)"

section \<open>Required-Value Filter\<close>

definition required_columns :: "string list" where
  "required_columns = [''price'', ''quantity'']"

fun check_columns :: "string list \<Rightarrow> 'n table \<Rightarrow> error option" where
  \<comment> \<open>The \<^verbatim>\<open>for col in required_columns\<close> loop: the first absent label is raised.\<close>
  "check_columns [] df = None"
| "check_columns (col # cols) df =
     (if col \<notin> set (columns df) then Some (KeyError col) else check_columns cols df)"

definition dropna :: "string list \<Rightarrow> 'n table \<Rightarrow> 'n table" where
  \<comment> \<open>\<^verbatim>\<open>df.dropna(subset=...)\<close>: a row goes when any of its cells under a label of the
      subset is missing; the rows that stay keep their order.\<close>
  "dropna labels df = df\<lparr>rows := filter
     (\<lambda>r. \<forall>c \<in> set labels. \<forall>v \<in> set (cells c df r). \<not> isna v) (rows df)\<rparr>"

definition handle_missing_values :: "'n table \<Rightarrow> error + 'n table" where
  "handle_missing_values df = (case check_columns required_columns df of
       Some e \<Rightarrow> Inl e
     | None \<Rightarrow> Inr (dropna required_columns df))"

section \<open>Validity Filter\<close>

definition is_text :: "'n val \<Rightarrow> bool" where
  "is_text v = (case v of Text s \<Rightarrow> True | _ \<Rightarrow> False)"

definition has_text :: "'n val list \<Rightarrow> bool" where
  "has_text vs = (\<exists>v \<in> set vs. is_text v)"

definition ge_zero_cell :: "('n::{zero, ord}) val \<Rightarrow> bool" where
  \<comment> \<open>One cell of \<^verbatim>\<open>column >= 0\<close>: a missing value compares false.\<close>
  "ge_zero_cell v = (case v of Num n \<Rightarrow> 0 \<le> n | _ \<Rightarrow> False)"

definition ge_zero :: "('n::{zero, ord}) val list \<Rightarrow> error + bool list" where
  \<comment> \<open>\<^verbatim>\<open>column >= 0\<close>: comparing a text with a number raises \<^verbatim>\<open>TypeError\<close>.\<close>
  "ge_zero vs = (if has_text vs then Inl TypeError else Inr (map ge_zero_cell vs))"

definition mask_rows :: "bool list \<Rightarrow> 'n table \<Rightarrow> 'n table" where
  \<comment> \<open>\<^verbatim>\<open>df[mask]\<close>: the rows whose entry of the mask is true, in order.\<close>
  "mask_rows m df = df\<lparr>rows := map fst (filter snd (zip (rows df) m))\<rparr>"

definition remove_invalid_rows :: "('n::{zero, ord}) table \<Rightarrow> error + 'n table" where
  \<comment> \<open>\<^verbatim>\<open>df[(df["price"] >= 0) & (df["quantity"] >= 0)]\<close> after the check of the labels.\<close>
  "remove_invalid_rows df = (case check_columns required_columns df of
       Some e \<Rightarrow> Inl e
     | None \<Rightarrow>
        (case getitem ''price'' df of Inl e \<Rightarrow> Inl e | Inr p \<Rightarrow>
        (case ge_zero p of Inl e \<Rightarrow> Inl e | Inr pm \<Rightarrow>
        (case getitem ''quantity'' df of Inl e \<Rightarrow> Inl e | Inr q \<Rightarrow>
        (case ge_zero q of Inl e \<Rightarrow> Inl e | Inr qm \<Rightarrow>
           Inr (mask_rows (map (\<lambda>(a, b). a \<and> b) (zip pm qm)) df))))))"

section \<open>The stages on a store of frames\<close>

text \<open>
  A frame is an object: a variable holds a reference to it, \<^verbatim>\<open>df.copy()\<close> and every
  pandas operation that returns a frame make a new object, and an assignment to
  \<^verbatim>\<open>df.columns\<close> or to \<^verbatim>\<open>df[col]\<close> changes the object \<^verbatim>\<open>df\<close> refers to. The store is
  the list of the frames made so far and a reference is a position in it. Each stage takes
  the reference it is called with and the store, and returns its result and the store
  after it. \<^verbatim>\<open>copy\<close> is deep (the default), so a frame shares no cell with its copy.
\<close>

type_synonym 'n heap = "'n table list"

definition new_df :: "'n table \<Rightarrow> 'n heap \<Rightarrow> nat \<times> 'n heap" where
  "new_df t h = (length h, h @ [t])"

definition copy_df :: "nat \<Rightarrow> 'n heap \<Rightarrow> nat \<times> 'n heap" where
  \<comment> \<open>\<^verbatim>\<open>df.copy()\<close>\<close>
  "copy_df df h = new_df (h ! df) h"

definition clean_column_names_st :: "nat \<Rightarrow> 'n heap \<Rightarrow> nat \<times> 'n heap" where
  "clean_column_names_st df0 h0 =
     (let (df, h) = copy_df df0 h0;
          h = h[df := (h ! df)\<lparr>columns := map normalize_name (columns (h ! df))\<rparr>]
      in (df, h))"

fun strip_loop_st ::
    "('n \<Rightarrow> string) \<Rightarrow> string list \<Rightarrow> nat \<Rightarrow> 'n heap \<Rightarrow> error option \<times> 'n heap" where
  \<comment> \<open>The loop of the Text Trimmer, assigning to the columns of the object \<open>df\<close>.\<close>
  "strip_loop_st str [] df h = (None, h)"
| "strip_loop_st str (col # cols) df h = (case positions col (columns (h ! df)) of
       [] \<Rightarrow> (Some (KeyError col), h)
     | [i] \<Rightarrow> strip_loop_st str cols df (h[df := strip_column str i (h ! df)])
     | _ \<Rightarrow> (Some AttributeError, h))"

definition strip_whitespace_from_strings_st ::
    "('n \<Rightarrow> string) \<Rightarrow> nat \<Rightarrow> 'n heap \<Rightarrow> (error + nat) \<times> 'n heap" where
  "strip_whitespace_from_strings_st str df0 h0 =
     (let (df, h) = copy_df df0 h0;
          (e, h) = strip_loop_st str (string_columns (h ! df)) df h
      in case e of Some x \<Rightarrow> (Inl x, h) | None \<Rightarrow> (Inr df, h))"

definition handle_missing_values_st :: "nat \<Rightarrow> 'n heap \<Rightarrow> (error + nat) \<times> 'n heap" where
  "handle_missing_values_st df0 h0 =
     (let (df, h) = copy_df df0 h0
      in case check_columns required_columns (h ! df) of
           Some e \<Rightarrow> (Inl e, h)
         | None \<Rightarrow> (let (df, h) = new_df (dropna required_columns (h ! df)) h in (Inr df, h)))"

definition remove_invalid_rows_st ::
    "nat \<Rightarrow> ('n::{zero, ord}) heap \<Rightarrow> (error + nat) \<times> 'n heap" where
  "remove_invalid_rows_st df0 h0 =
     (let (df, h) = copy_df df0 h0
      in case check_columns required_columns (h ! df) of
           Some e \<Rightarrow> (Inl e, h)
         | None \<Rightarrow>
            (case getitem ''price'' (h ! df) of Inl e \<Rightarrow> (Inl e, h) | Inr p \<Rightarrow>
            (case ge_zero p of Inl e \<Rightarrow> (Inl e, h) | Inr pm \<Rightarrow>
            (case getitem ''quantity'' (h ! df) of Inl e \<Rightarrow> (Inl e, h) | Inr q \<Rightarrow>
            (case ge_zero q of Inl e \<Rightarrow> (Inl e, h) | Inr qm \<Rightarrow>
               (let (df, h) = new_df (mask_rows (map (\<lambda>(a, b). a \<and> b) (zip pm qm)) (h ! df)) h
                in (Inr df, h)))))))"

section \<open>A sample table\<close>

definition sales :: "int table" where
  "sales = \<lparr>columns = [''product'', ''price'', ''quantity''],
     dtypes = [Object, Numeric, Numeric],
     rows = [[Text '' Shoes '', Num 10, Num 2],
             [Text ''Hat'', Missing, Num 1],
             [Text ''  '', Num (- 5), Num 3],
             [Missing, Num 0, Num 0],
             [Text ''Bag'', Num 7, Missing]]\<rparr>"

definition sales_trimmed :: "int table" where
  "sales_trimmed = sales\<lparr>dtypes := [StringDtype, Numeric, Numeric],
     rows := [[Text ''Shoes'', Num 10, Num 2],
              [Text ''Hat'', Missing, Num 1],
              [Text [], Num (- 5), Num 3],
              [Missing, Num 0, Num 0],
              [Text ''Bag'', Num 7, Missing]]\<rparr>"

definition sales_valid :: "int table" where
  "sales_valid = sales\<lparr>rows := [[Text '' Shoes '', Num 10, Num 2], [Missing, Num 0, Num 0]]\<rparr>"

definition misnamed :: "int table" where
  \<comment> \<open>The sample with a header the filters do not expect.\<close>
  "misnamed = sales\<lparr>columns := [''product'', ''price'', ''qty'']\<rparr>"

definition show_int :: "int \<Rightarrow> string" where
  \<comment> \<open>A stand-in for \<^verbatim>\<open>str\<close> on the numbers of the sample, none of which is in a column of
      dtype object.\<close>
  "show_int n = ''?''"


section \<open>Properties of the string operations\<close>

lemma is_space_lower_char [simp]: "is_space (lower_char c) = is_space c"
  unfolding is_space_def lower_char_def is_upper_def Let_def by auto

lemma lower_char_idem [simp]: "lower_char (lower_char c) = lower_char c"
  unfolding lower_char_def is_upper_def Let_def by auto

lemma lower_char_underscore [simp]: "lower_char (CHR ''_'') = CHR ''_''"
  unfolding lower_char_def is_upper_def Let_def by simp

lemma char_eq_space_iff: "c = CHR '' '' \<longleftrightarrow> (of_char c :: nat) = 32"
proof -
  have "(of_char c :: nat) = of_char (CHR '' '') \<longleftrightarrow> c = CHR '' ''"
    by (rule of_char_eq_iff)
  then show ?thesis by simp
qed

lemma lower_char_eq_space [simp]: "lower_char c = CHR '' '' \<longleftrightarrow> c = CHR '' ''"
  unfolding char_eq_space_iff lower_char_def is_upper_def Let_def
  by auto

lemma is_space_space [simp]: "is_space (CHR '' '')"
  unfolding is_space_def by simp

lemma not_is_space_underscore [simp]: "\<not> is_space (CHR ''_'')"
  unfolding is_space_def by simp

lemma last_dropWhile: "dropWhile P xs \<noteq> [] \<Longrightarrow> last (dropWhile P xs) = last xs"
  by (induction xs) (auto split: if_splits)

lemma strip_trimmed: "trimmed (strip s)"
proof -
  define u where "u = dropWhile is_space s"
  define v where "v = dropWhile is_space (rev u)"
  have s: "strip s = rev v" by (simp add: strip_def u_def v_def)
  show ?thesis
  proof (cases "v = []")
    case True
    then show ?thesis by (simp add: s trimmed_def)
  next
    case False
    have hv: "\<not> is_space (hd v)"
      using False unfolding v_def by (rule hd_dropWhile)
    have u: "u \<noteq> []"
    proof
      assume "u = []"
      then have "v = []" by (simp add: v_def)
      with False show False by blast
    qed
    have "last v = last (rev u)"
      using False unfolding v_def by (rule last_dropWhile)
    also have "\<dots> = hd u" by (rule last_rev)
    finally have lv: "last v = hd u" .
    have hu: "\<not> is_space (hd u)"
      using u unfolding u_def by (rule hd_dropWhile)
    have "hd (rev v) = hd u" using lv by (simp only: hd_rev)
    moreover have "last (rev v) = hd v" by (rule last_rev)
    ultimately show ?thesis using hu hv by (simp only: trimmed_def s simp_thms)
  qed
qed

lemma strip_of_trimmed:
  assumes "trimmed s"
  shows "strip s = s"
proof (cases "s = []")
  case True
  then show ?thesis by (simp add: strip_def)
next
  case False
  with assms have h: "\<not> is_space (hd s)" and l: "\<not> is_space (last s)"
    by (simp_all add: trimmed_def)
  from h have 1: "dropWhile is_space s = s"
    by (simp only: dropWhile_eq_self_iff simp_thms)
  from l have "\<not> is_space (hd (rev s))" by (simp add: hd_rev)
  then have 2: "dropWhile is_space (rev s) = rev s"
    by (simp only: dropWhile_eq_self_iff simp_thms)
  show ?thesis by (simp only: strip_def 1 2 rev_rev_ident)
qed

lemma trimmed_map:
  assumes "trimmed s" and "\<And>c. \<not> is_space c \<Longrightarrow> \<not> is_space (f c)"
  shows "trimmed (map f s)"
proof (cases "s = []")
  case True
  then show ?thesis by (simp add: trimmed_def)
next
  case False
  with assms(1) have "\<not> is_space (hd s)" and "\<not> is_space (last s)"
    by (simp_all add: trimmed_def)
  then have "\<not> is_space (f (hd s))" and "\<not> is_space (f (last s))"
    by (simp_all add: assms(2))
  with False show ?thesis by (simp add: trimmed_def hd_map last_map)
qed

lemma normalize_name_trimmed: "trimmed (normalize_name s)"
  unfolding normalize_name_def replace_space_def lower_def map_map
  by (rule trimmed_map [OF strip_trimmed]) (auto)

lemma replace_lower_idem:
  "replace_space (lower (replace_space (lower t))) = replace_space (lower t)"
  unfolding replace_space_def lower_def by (induction t) simp_all

lemma normalize_name_example: "normalize_name '' Unit Price '' = ''unit_price''"
  by code_simp

lemma normalize_name_idem: "normalize_name (normalize_name s) = normalize_name s"
proof -
  have "strip (normalize_name s) = normalize_name s"
    by (rule strip_of_trimmed [OF normalize_name_trimmed])
  then have "normalize_name (normalize_name s) = replace_space (lower (normalize_name s))"
    by (simp add: normalize_name_def)
  also have "\<dots> = normalize_name s"
    unfolding normalize_name_def by (rule replace_lower_idem)
  finally show ?thesis .
qed

section \<open>Masks and positions\<close>

lemma check_columns_required:
  "check_columns required_columns df =
     (if ''price'' \<notin> set (columns df) then Some (KeyError ''price'')
      else if ''quantity'' \<notin> set (columns df) then Some (KeyError ''quantity'')
      else None)"
  by (simp add: required_columns_def)

lemma positions_mem: "i \<in> set (positions c cs) \<longleftrightarrow> i < length cs \<and> cs ! i = c"
  by (auto simp: positions_def)








section \<open>Properties of the Column Normalizer\<close>


text \<open>
  C6. The Column Normalizer is idempotent: applied to its own output it returns that
  output, labels and rows.
\<close>

theorem clean_column_names_idempotent:
  "clean_column_names (clean_column_names df) = clean_column_names df"
  by (simp add: clean_column_names_def normalize_name_idem)

section \<open>Properties of the Text Trimmer\<close>

lemma strip_idem: "strip (strip s) = strip s"
  by (rule strip_of_trimmed [OF strip_trimmed])

lemma strip_cell_idem: "strip_cell str (strip_cell str v) = strip_cell str v"
  by (cases v) (simp_all add: strip_cell_def strip_idem)

lemma strip_whitespace_only:
  assumes "\<forall>c \<in> set s. is_space c"
  shows "strip s = []"
proof -
  from assms have d: "dropWhile is_space s = []" by simp
  show ?thesis unfolding strip_def d by simp
qed

lemma strip_decomp:
  "\<exists>a b. s = a @ strip s @ b \<and> (\<forall>c \<in> set a. is_space c) \<and> (\<forall>c \<in> set b. is_space c)"
proof -
  define u where "u = dropWhile is_space s"
  have 1: "s = takeWhile is_space s @ u" by (simp add: u_def)
  have 2: "rev u = takeWhile is_space (rev u) @ dropWhile is_space (rev u)" by simp
  have "u = rev (dropWhile is_space (rev u)) @ rev (takeWhile is_space (rev u))"
    using arg_cong [OF 2, of rev] by (simp only: rev_append rev_rev_ident)
  then have 3: "u = strip s @ rev (takeWhile is_space (rev u))"
    by (simp add: strip_def u_def)
  have "s = takeWhile is_space s @ strip s @ rev (takeWhile is_space (rev u))"
    using 1 3 by simp
  moreover have "\<forall>c \<in> set (takeWhile is_space s). is_space c"
    by (auto dest: set_takeWhileD)
  moreover have "\<forall>c \<in> set (rev (takeWhile is_space (rev u))). is_space c"
    by (auto dest: set_takeWhileD)
  ultimately show ?thesis by blast
qed

lemma positions_single_iff:
  "positions c cs = [i] \<Longrightarrow> (k < length cs \<and> cs ! k = c) \<longleftrightarrow> k = i"
  using positions_mem [of k c cs] by simp

lemma strip_loop_unique:
  "strip_loop str cols df = Inr df' \<Longrightarrow> c \<in> set cols \<Longrightarrow> \<exists>m. positions c (columns df) = [m]"
proof (induction cols arbitrary: df)
  case Nil
  then show ?case by simp
next
  case (Cons col cols)
  from Cons.prems(1) obtain i where i: "positions col (columns df) = [i]"
    and l: "strip_loop str cols (strip_column str i df) = Inr df'"
    by (auto split: list.splits)
  show ?case
  proof (cases "c = col")
    case True
    with i show ?thesis by blast
  next
    case False
    with Cons.prems(2) have "c \<in> set cols" by simp
    from Cons.IH [OF l this] show ?thesis by (simp add: strip_column_def)
  qed
qed

lemma strip_loop_returns:
  "\<forall>c \<in> set cols. \<exists>m. positions c (columns df) = [m] \<Longrightarrow> \<exists>df'. strip_loop str cols df = Inr df'"
proof (induction cols arbitrary: df)
  case Nil
  then show ?case by simp
next
  case (Cons col cols)
  from Cons.prems obtain i where i: "positions col (columns df) = [i]" by auto
  have "columns (strip_column str i df) = columns df" by (simp add: strip_column_def)
  with Cons.prems have "\<forall>c \<in> set cols. \<exists>m. positions c (columns (strip_column str i df)) = [m]"
    by simp
  from Cons.IH [OF this] show ?case by (simp add: i)
qed

lemma strip_loop_Inr:
  "strip_loop str cols df = Inr df' \<Longrightarrow>
     columns df' = columns df \<and>
     dtypes df' = map (\<lambda>i. if hit cols (columns df) i then StringDtype else dtypes df ! i)
        [0..<length (dtypes df)] \<and>
     rows df' = map (\<lambda>r. map (\<lambda>i. if hit cols (columns df) i then strip_cell str (r ! i) else r ! i)
        [0..<length r]) (rows df)"
proof (induction cols arbitrary: df)
  case Nil
  then show ?case by (simp add: hit_def map_nth)
next
  case (Cons col cols)
  from Cons.prems obtain i where i: "positions col (columns df) = [i]"
    and l: "strip_loop str cols (strip_column str i df) = Inr df'"
    by (auto split: list.splits)
  let ?d = "strip_column str i df"
  note IH = Cons.IH [OF l]
  have c: "columns ?d = columns df" by (simp add: strip_column_def)
  have h: "hit (col # cols) (columns df) k \<longleftrightarrow> k = i \<or> hit cols (columns df) k" for k
    using positions_single_iff [OF i, of k] by (auto simp: hit_def)
  have dt: "map (\<lambda>k. if hit cols (columns df) k then StringDtype else dtypes ?d ! k)
        [0..<length (dtypes ?d)] =
      map (\<lambda>k. if hit (col # cols) (columns df) k then StringDtype else dtypes df ! k)
        [0..<length (dtypes df)]"
    by (rule nth_equalityI) (simp_all add: strip_column_def h nth_list_update)
  have rw: "map (\<lambda>k. if hit cols (columns df) k then strip_cell str (r[i := strip_cell str (at r i)] ! k)
          else r[i := strip_cell str (at r i)] ! k) [0..<length r] =
      map (\<lambda>k. if hit (col # cols) (columns df) k then strip_cell str (r ! k) else r ! k)
        [0..<length r]" for r
    by (rule nth_equalityI) (simp_all add: h nth_list_update at_def strip_cell_idem)
  from IH have "columns df' = columns df" by (simp add: c)
  moreover from IH have "dtypes df' = map (\<lambda>k. if hit (col # cols) (columns df) k then StringDtype
      else dtypes df ! k) [0..<length (dtypes df)]"
    by (simp only: c dt)
  moreover from IH have "rows df' = map (\<lambda>r. map (\<lambda>k. if hit (col # cols) (columns df) k
      then strip_cell str (r ! k) else r ! k) [0..<length r]) (rows df)"
    by (simp add: c strip_column_def comp_def rw)
  ultimately show ?case by simp
qed

lemma hit_string_columns:
  assumes "strip_whitespace_from_strings str df = Inr df'"
  shows "hit (string_columns df) (columns df) i \<longleftrightarrow> text_typed df i"
proof
  assume "text_typed df i"
  then have "(columns df ! i, Object) \<in> set (zip (columns df) (dtypes df))"
    and "i < length (columns df)"
    by (auto simp: text_typed_def in_set_zip)
  then show "hit (string_columns df) (columns df) i"
    by (force simp: hit_def string_columns_def)
next
  assume h: "hit (string_columns df) (columns df) i"
  then have i: "i < length (columns df)" and "columns df ! i \<in> set (string_columns df)"
    by (simp_all add: hit_def)
  then obtain k where k: "k < length (columns df)" "k < length (dtypes df)"
    "columns df ! k = columns df ! i" "dtypes df ! k = Object"
    by (auto simp: string_columns_def in_set_zip)
  from assms \<open>columns df ! i \<in> set (string_columns df)\<close>
  obtain m where m: "positions (columns df ! i) (columns df) = [m]"
    unfolding strip_whitespace_from_strings_def by (blast dest: strip_loop_unique)
  from positions_single_iff [OF m, of k] k have "k = m" by simp
  moreover from positions_single_iff [OF m, of i] i have "i = m" by simp
  ultimately show "text_typed df i" using k by (simp add: text_typed_def)
qed


lemma strip_sales:
  "strip_whitespace_from_strings show_int sales =
     Inr sales_trimmed"
  by code_simp

text \<open>
  C8. When the Text Trimmer returns a table, the labels are those of the input and every
  row is the input row in which each cell of a column of dtype object has gone through
  \<open>strip_cell\<close> and every other cell is as it was. \<open>strip_cell\<close> turns a text into that
  text without its leading and its trailing run of whitespace (what is cut off is
  whitespace only, and what remains has none at either end), so a text of whitespace only
  becomes the empty text, not a missing value; it keeps a missing value missing.
\<close>

theorem strip_whitespace_from_strings_cells:
  assumes "strip_whitespace_from_strings str df = Inr df'"
  shows "columns df' = columns df \<and>
     rows df' = map (\<lambda>r. map (\<lambda>i. if text_typed df i then strip_cell str (r ! i) else r ! i)
        [0..<length r]) (rows df) \<and>
     strip_cell str (Text s) = Text (strip s) \<and>
     (\<exists>a b. s = a @ strip s @ b \<and> (\<forall>c \<in> set a. is_space c) \<and> (\<forall>c \<in> set b. is_space c)) \<and>
     trimmed (strip s) \<and>
     ((\<forall>c \<in> set s. is_space c) \<longrightarrow> strip_cell str (Text s) = Text []) \<and>
     strip_cell str Missing = Missing"
proof -
  from assms have l: "strip_loop str (string_columns df) df = Inr df'"
    by (simp add: strip_whitespace_from_strings_def)
  note h = hit_string_columns [OF assms]
  from strip_loop_Inr [OF l] have "columns df' = columns df"
    and "rows df' = map (\<lambda>r. map (\<lambda>i. if text_typed df i then strip_cell str (r ! i) else r ! i)
        [0..<length r]) (rows df)"
    by (simp_all add: h)
  moreover have "strip_cell str (Text s) = Text (strip s)" and "strip_cell str Missing = Missing"
    by (simp_all add: strip_cell_def)
  moreover have "(\<forall>c \<in> set s. is_space c) \<longrightarrow> strip_cell str (Text s) = Text []"
    by (simp add: strip_cell_def strip_whitespace_only)
  ultimately show ?thesis using strip_decomp [of s] strip_trimmed [of s] by blast
qed

theorem strip_whitespace_from_strings_cells_witness:
  "strip_whitespace_from_strings show_int sales =
     Inr sales_trimmed \<and>
   rows sales_trimmed =
     map (\<lambda>r. map (\<lambda>i. if text_typed sales i then strip_cell show_int (r ! i) else r ! i)
        [0..<length r]) (rows sales) \<and>
   strip_cell show_int (Text ''  '') = Text (strip ''  '') \<and>
   strip_cell show_int (Text ''  '') = Text []"
proof -
  note th = strip_whitespace_from_strings_cells [OF strip_sales, of "''  ''"]
  from th have r: "rows sales_trimmed =
     map (\<lambda>r. map (\<lambda>i. if text_typed sales i then strip_cell show_int (r ! i) else r ! i)
        [0..<length r]) (rows sales)" by blast
  from th have s: "strip_cell show_int (Text ''  '') = Text (strip ''  '')" by blast
  from th have i: "(\<forall>c \<in> set ''  ''. is_space c) \<longrightarrow> strip_cell show_int (Text ''  '') = Text []"
    by blast
  have "\<forall>c \<in> set ''  ''. is_space c" by simp
  with i have e: "strip_cell show_int (Text ''  '') = Text []" by blast
  show ?thesis by (rule conjI [OF strip_sales conjI [OF r conjI [OF s e]]])
qed

text \<open>
  C7. The Text Trimmer is idempotent: applied to a table it has returned, it returns that
  table.
\<close>

theorem strip_whitespace_from_strings_idempotent:
  assumes "strip_whitespace_from_strings str df = Inr df'"
  shows "strip_whitespace_from_strings str df' = Inr df'"
proof -
  from assms have l: "strip_loop str (string_columns df) df = Inr df'"
    by (simp add: strip_whitespace_from_strings_def)
  note h = hit_string_columns [OF assms]
  from strip_loop_Inr [OF l] have c: "columns df' = columns df"
    and d: "dtypes df' = map (\<lambda>i. if text_typed df i then StringDtype else dtypes df ! i)
        [0..<length (dtypes df)]"
    by (simp_all add: h)
  have "dtypes df' ! i \<noteq> Object" if "i < length (columns df')" "i < length (dtypes df')" for i
    using that by (auto simp: c d text_typed_def)
  then have "string_columns df' = []"
    by (auto simp: string_columns_def filter_empty_conv in_set_zip)
  then show ?thesis by (simp add: strip_whitespace_from_strings_def)
qed

theorem strip_whitespace_from_strings_idempotent_witness:
  "strip_whitespace_from_strings show_int sales =
     Inr sales_trimmed \<and>
   strip_whitespace_from_strings show_int sales_trimmed =
     Inr sales_trimmed"
  by (rule conjI [OF strip_sales strip_whitespace_from_strings_idempotent [OF strip_sales]])

section \<open>Properties of the Validity Filter\<close>


lemma isna_iff: "isna v \<longleftrightarrow> v = Missing"
  by (cases v) (simp_all add: isna_def)

lemma cells_single: "positions c (columns df) = [i] \<Longrightarrow> cells c df r = [at r i]"
  by (simp add: cells_def)





section \<open>Properties of the Required-Value Filter\<close>

text \<open>
  C3. On a table that has the labels "price" and "quantity", the Required-Value Filter
  returns a table with the labels and dtypes of its input, whose rows are the rows of the
  input with no missing value under "price" and none under "quantity", each as it was and
  in the order of the input.
\<close>

theorem handle_missing_values_stable_filter:
  assumes "''price'' \<in> set (columns df)" and "''quantity'' \<in> set (columns df)"
  shows "\<exists>df'. handle_missing_values df = Inr df' \<and>
     columns df' = columns df \<and> dtypes df' = dtypes df \<and>
     rows df' = filter (\<lambda>r. Missing \<notin> set (cells ''price'' df r) \<and>
                              Missing \<notin> set (cells ''quantity'' df r)) (rows df)"
proof -
  have "check_columns required_columns df = None"
    using assms by (simp add: check_columns_required)
  then have "handle_missing_values df = Inr (dropna required_columns df)"
    by (simp add: handle_missing_values_def)
  moreover have "rows (dropna required_columns df) =
      filter (\<lambda>r. Missing \<notin> set (cells ''price'' df r) \<and>
                   Missing \<notin> set (cells ''quantity'' df r)) (rows df)"
    by (auto simp: dropna_def required_columns_def isna_iff intro!: filter_cong)
  ultimately show ?thesis by (simp add: dropna_def)
qed

theorem handle_missing_values_stable_filter_witness:
  "''price'' \<in> set (columns sales) \<and> ''quantity'' \<in> set (columns sales) \<and>
   (\<exists>df'. handle_missing_values sales = Inr df' \<and>
     columns df' = columns sales \<and> dtypes df' = dtypes sales \<and>
     rows df' = filter (\<lambda>r. Missing \<notin> set (cells ''price'' sales r) \<and>
                              Missing \<notin> set (cells ''quantity'' sales r)) (rows sales)) \<and>
   filter (\<lambda>r. Missing \<notin> set (cells ''price'' sales r) \<and>
                Missing \<notin> set (cells ''quantity'' sales r)) (rows sales) =
     [[Text '' Shoes '', Num 10, Num 2], [Text ''  '', Num (- 5), Num 3], [Missing, Num 0, Num 0]]"
proof -
  have p: "''price'' \<in> set (columns sales)" by (simp add: sales_def)
  have q: "''quantity'' \<in> set (columns sales)" by (simp add: sales_def)
  note e = handle_missing_values_stable_filter [OF p q]
  have f: "filter (\<lambda>r. Missing \<notin> set (cells ''price'' sales r) \<and>
                Missing \<notin> set (cells ''quantity'' sales r)) (rows sales) =
     [[Text '' Shoes '', Num 10, Num 2], [Text ''  '', Num (- 5), Num 3], [Missing, Num 0, Num 0]]"
    by code_simp
  show ?thesis by (rule conjI [OF p conjI [OF q conjI [OF e f]]])
qed

section \<open>The stages on the store\<close>

lemma clean_column_names_st_eq:
  "clean_column_names_st df h = (length h, h @ [clean_column_names (h ! df)])"
  by (simp add: clean_column_names_st_def copy_df_def new_df_def clean_column_names_def)

lemma strip_loop_st_eq:
  "df < length h \<Longrightarrow>
     \<exists>t. strip_loop_st str cols df h = (case strip_loop str cols (h ! df) of
              Inl e \<Rightarrow> (Some e, h[df := t]) | Inr t' \<Rightarrow> (None, h[df := t']))"
proof (induction cols arbitrary: h)
  case Nil
  then show ?case by simp
next
  case (Cons col cols)
  show ?case
  proof (cases "positions col (columns (h ! df))")
    case Nil
    then have "strip_loop_st str (col # cols) df h = (Some (KeyError col), h[df := h ! df])"
      and "strip_loop str (col # cols) (h ! df) = Inl (KeyError col)"
      by simp_all
    then show ?thesis by (metis old.sum.simps(5))
  next
    case (Cons i ps)
    note c = this
    show ?thesis
    proof (cases ps)
      case (Cons a list)
      with c have "strip_loop_st str (col # cols) df h = (Some AttributeError, h[df := h ! df])"
        and "strip_loop str (col # cols) (h ! df) = Inl AttributeError"
        by simp_all
      then show ?thesis by (metis old.sum.simps(5))
    next
      case Nil
      let ?h = "h[df := strip_column str i (h ! df)]"
      from Cons.prems have l: "df < length ?h" by simp
      from Cons.IH [OF l] obtain t where
        "strip_loop_st str cols df ?h = (case strip_loop str cols (?h ! df) of
              Inl e \<Rightarrow> (Some e, ?h[df := t]) | Inr t' \<Rightarrow> (None, ?h[df := t']))" by blast
      with Nil c Cons.prems show ?thesis by (auto split: sum.splits)
    qed
  qed
qed

lemma strip_whitespace_from_strings_st_eq:
  "\<exists>t. strip_whitespace_from_strings_st str df h =
     (case strip_whitespace_from_strings str (h ! df) of
        Inl e \<Rightarrow> (Inl e, h @ [t]) | Inr t' \<Rightarrow> (Inr (length h), h @ [t']))"
proof -
  let ?h = "h @ [h ! df]"
  have l: "length h < length ?h" by simp
  from strip_loop_st_eq [OF l, of str "string_columns (h ! df)"] obtain t where
    "strip_loop_st str (string_columns (h ! df)) (length h) ?h =
       (case strip_loop str (string_columns (?h ! length h)) (?h ! length h) of
              Inl e \<Rightarrow> (Some e, ?h[length h := t]) | Inr t' \<Rightarrow> (None, ?h[length h := t']))"
    by auto
  then have "strip_loop_st str (string_columns (h ! df)) (length h) ?h =
       (case strip_loop str (string_columns (h ! df)) (h ! df) of
              Inl e \<Rightarrow> (Some e, h @ [t]) | Inr t' \<Rightarrow> (None, h @ [t']))"
    by (simp split: sum.splits)
  then show ?thesis
    by (auto simp: strip_whitespace_from_strings_st_def strip_whitespace_from_strings_def
        copy_df_def new_df_def split: sum.splits)
qed

lemma handle_missing_values_st_eq:
  "handle_missing_values_st df h = (case handle_missing_values (h ! df) of
      Inl e \<Rightarrow> (Inl e, h @ [h ! df]) | Inr t \<Rightarrow> (Inr (Suc (length h)), h @ [h ! df, t]))"
  by (simp add: handle_missing_values_st_def handle_missing_values_def copy_df_def new_df_def
      split: option.splits)

lemma remove_invalid_rows_st_eq:
  "remove_invalid_rows_st df h = (case remove_invalid_rows (h ! df) of
      Inl e \<Rightarrow> (Inl e, h @ [h ! df]) | Inr t \<Rightarrow> (Inr (Suc (length h)), h @ [h ! df, t]))"
  by (simp add: remove_invalid_rows_st_def remove_invalid_rows_def copy_df_def new_df_def
      split: option.splits sum.splits)

section \<open>Properties that span the stages\<close>

text \<open>
  C4. When the frame a filter is called with lacks the label "price" or the label
  "quantity", the Required-Value Filter and the Validity Filter both raise
  \<^verbatim>\<open>KeyError\<close> for the first of the two labels that is absent. On the store, the only
  frame either has made by then is the copy of its input: no frame of filtered rows
  exists, and the input frame is as it was.
\<close>

theorem filters_missing_column:
  fixes h :: "('n::{zero, ord}) heap"
  assumes "df < length h"
    and "''price'' \<notin> set (columns (h ! df)) \<or> ''quantity'' \<notin> set (columns (h ! df))"
  shows "\<exists>c. c \<in> set required_columns \<and> c \<notin> set (columns (h ! df)) \<and>
     handle_missing_values (h ! df) = Inl (KeyError c) \<and>
     remove_invalid_rows (h ! df) = Inl (KeyError c) \<and>
     handle_missing_values_st df h = (Inl (KeyError c), h @ [h ! df]) \<and>
     remove_invalid_rows_st df h = (Inl (KeyError c), h @ [h ! df]) \<and>
     (h @ [h ! df]) ! df = h ! df"
proof -
  define c where "c = (if ''price'' \<notin> set (columns (h ! df)) then ''price'' else ''quantity'')"
  from assms(2) have a: "c \<notin> set (columns (h ! df))" and r: "c \<in> set required_columns"
    by (auto simp: c_def required_columns_def)
  have "check_columns required_columns (h ! df) = Some (KeyError c)"
    using assms(2) by (auto simp: check_columns_required c_def)
  then have 1: "handle_missing_values (h ! df) = Inl (KeyError c)"
    and 2: "remove_invalid_rows (h ! df) = Inl (KeyError c)"
    by (simp_all add: handle_missing_values_def remove_invalid_rows_def)
  from 1 have 3: "handle_missing_values_st df h = (Inl (KeyError c), h @ [h ! df])"
    by (simp add: handle_missing_values_st_eq)
  from 2 have 4: "remove_invalid_rows_st df h = (Inl (KeyError c), h @ [h ! df])"
    by (simp add: remove_invalid_rows_st_eq)
  from assms(1) have 5: "(h @ [h ! df]) ! df = h ! df" by (simp add: nth_append)
  from a r 1 2 3 4 5 show ?thesis by blast
qed

theorem filters_missing_column_witness:
  "0 < length [misnamed] \<and> ''quantity'' \<notin> set (columns ([misnamed] ! 0)) \<and>
   (\<exists>c. c \<in> set required_columns \<and> c \<notin> set (columns ([misnamed] ! 0)) \<and>
     handle_missing_values ([misnamed] ! 0) = Inl (KeyError c) \<and>
     remove_invalid_rows ([misnamed] ! 0) = Inl (KeyError c) \<and>
     handle_missing_values_st 0 [misnamed] = (Inl (KeyError c), [misnamed] @ [[misnamed] ! 0]) \<and>
     remove_invalid_rows_st 0 [misnamed] = (Inl (KeyError c), [misnamed] @ [[misnamed] ! 0]) \<and>
     ([misnamed] @ [[misnamed] ! 0]) ! 0 = [misnamed] ! 0) \<and>
   handle_missing_values misnamed = Inl (KeyError ''quantity'') \<and>
   remove_invalid_rows misnamed = Inl (KeyError ''quantity'')"
proof -
  have l: "0 < length [misnamed]" by simp
  have q: "''quantity'' \<notin> set (columns ([misnamed] ! 0))" by code_simp
  note e = filters_missing_column [OF l disjI2 [OF q]]
  have 1: "handle_missing_values misnamed = Inl (KeyError ''quantity'')" by code_simp
  have 2: "remove_invalid_rows misnamed = Inl (KeyError ''quantity'')" by code_simp
  show ?thesis by (rule conjI [OF l conjI [OF q conjI [OF e conjI [OF 1 2]]]])
qed

text \<open>
  C9. Each stage leaves the frames that exist when it is called as they are, its input
  among them. When it returns a frame, that frame is an object of its own, made during the
  call, and it holds what the stage computes from the input as a value; when it raises,
  it raises what the stage raises on the input as a value.
\<close>

theorem stages_leave_input_unchanged:
  fixes h :: "('n::{zero, ord}) heap"
  assumes "df < length h"
  shows
    "(case clean_column_names_st df h of (r, h') \<Rightarrow>
        take (length h) h' = h \<and> h' ! df = h ! df \<and> r \<noteq> df \<and> r < length h' \<and>
        h' ! r = clean_column_names (h ! df)) \<and>
     (case strip_whitespace_from_strings_st str df h of (res, h') \<Rightarrow>
        take (length h) h' = h \<and> h' ! df = h ! df \<and>
        (case res of
           Inl e \<Rightarrow> strip_whitespace_from_strings str (h ! df) = Inl e
         | Inr r \<Rightarrow> r \<noteq> df \<and> r < length h' \<and>
             strip_whitespace_from_strings str (h ! df) = Inr (h' ! r))) \<and>
     (case handle_missing_values_st df h of (res, h') \<Rightarrow>
        take (length h) h' = h \<and> h' ! df = h ! df \<and>
        (case res of
           Inl e \<Rightarrow> handle_missing_values (h ! df) = Inl e
         | Inr r \<Rightarrow> r \<noteq> df \<and> r < length h' \<and>
             handle_missing_values (h ! df) = Inr (h' ! r))) \<and>
     (case remove_invalid_rows_st df h of (res, h') \<Rightarrow>
        take (length h) h' = h \<and> h' ! df = h ! df \<and>
        (case res of
           Inl e \<Rightarrow> remove_invalid_rows (h ! df) = Inl e
         | Inr r \<Rightarrow> r \<noteq> df \<and> r < length h' \<and>
             remove_invalid_rows (h ! df) = Inr (h' ! r)))"
proof (intro conjI)
  show "case clean_column_names_st df h of (r, h') \<Rightarrow>
        take (length h) h' = h \<and> h' ! df = h ! df \<and> r \<noteq> df \<and> r < length h' \<and>
        h' ! r = clean_column_names (h ! df)"
    using assms by (simp add: clean_column_names_st_eq nth_append)
next
  obtain t where "strip_whitespace_from_strings_st str df h =
     (case strip_whitespace_from_strings str (h ! df) of
        Inl e \<Rightarrow> (Inl e, h @ [t]) | Inr t' \<Rightarrow> (Inr (length h), h @ [t']))"
    using strip_whitespace_from_strings_st_eq by blast
  then show "case strip_whitespace_from_strings_st str df h of (res, h') \<Rightarrow>
        take (length h) h' = h \<and> h' ! df = h ! df \<and>
        (case res of
           Inl e \<Rightarrow> strip_whitespace_from_strings str (h ! df) = Inl e
         | Inr r \<Rightarrow> r \<noteq> df \<and> r < length h' \<and>
             strip_whitespace_from_strings str (h ! df) = Inr (h' ! r))"
    using assms by (simp add: nth_append split: sum.splits)
next
  show "case handle_missing_values_st df h of (res, h') \<Rightarrow>
        take (length h) h' = h \<and> h' ! df = h ! df \<and>
        (case res of
           Inl e \<Rightarrow> handle_missing_values (h ! df) = Inl e
         | Inr r \<Rightarrow> r \<noteq> df \<and> r < length h' \<and>
             handle_missing_values (h ! df) = Inr (h' ! r))"
    using assms by (simp add: handle_missing_values_st_eq nth_append split: sum.splits)
next
  show "case remove_invalid_rows_st df h of (res, h') \<Rightarrow>
        take (length h) h' = h \<and> h' ! df = h ! df \<and>
        (case res of
           Inl e \<Rightarrow> remove_invalid_rows (h ! df) = Inl e
         | Inr r \<Rightarrow> r \<noteq> df \<and> r < length h' \<and>
             remove_invalid_rows (h ! df) = Inr (h' ! r))"
    using assms by (simp add: remove_invalid_rows_st_eq nth_append split: sum.splits)
qed

theorem stages_leave_input_unchanged_witness:
  "clean_column_names_st 0 [sales] = (1, [sales, sales]) \<and>
   strip_whitespace_from_strings_st show_int 0 [sales] = (Inr 1, [sales, sales_trimmed]) \<and>
   handle_missing_values_st 0 [misnamed] = (Inl (KeyError ''quantity''), [misnamed, misnamed]) \<and>
   remove_invalid_rows_st 0 [sales] = (Inr 2, [sales, sales, sales_valid]) \<and>
   (case remove_invalid_rows_st 0 [sales] of (res, h') \<Rightarrow>
        take (length [sales]) h' = [sales] \<and> h' ! 0 = [sales] ! 0 \<and>
        (case res of
           Inl e \<Rightarrow> remove_invalid_rows ([sales] ! 0) = Inl e
         | Inr r \<Rightarrow> r \<noteq> 0 \<and> r < length h' \<and>
             remove_invalid_rows ([sales] ! 0) = Inr (h' ! r)))"
proof -
  have l: "0 < length [sales]" by simp
  have 1: "clean_column_names_st 0 [sales] = (1, [sales, sales])" by code_simp
  have 2: "strip_whitespace_from_strings_st show_int 0 [sales] = (Inr 1, [sales, sales_trimmed])"
    by code_simp
  have 3: "handle_missing_values_st 0 [misnamed] = (Inl (KeyError ''quantity''), [misnamed, misnamed])"
    by code_simp
  have 4: "remove_invalid_rows_st 0 [sales] = (Inr 2, [sales, sales, sales_valid])" by code_simp
  note th = stages_leave_input_unchanged [OF l, of show_int]
  have 5: "case remove_invalid_rows_st 0 [sales] of (res, h') \<Rightarrow>
        take (length [sales]) h' = [sales] \<and> h' ! 0 = [sales] ! 0 \<and>
        (case res of
           Inl e \<Rightarrow> remove_invalid_rows ([sales] ! 0) = Inl e
         | Inr r \<Rightarrow> r \<noteq> 0 \<and> r < length h' \<and>
             remove_invalid_rows ([sales] ! 0) = Inr (h' ! r))"
    by (rule conjunct2 [OF conjunct2 [OF conjunct2 [OF th]]])
  show ?thesis by (rule conjI [OF 1 conjI [OF 2 conjI [OF 3 conjI [OF 4 5]]]])
qed




end
